theory Spec2Isabelle
  imports Complex_Main "HOL-Library.Sublist" "HOL-Library.Char_ord" "HOL-Library.List_Lexorder"
    "HOL-Library.Product_Lexorder"
begin

section \<open>Text helpers\<close>

text \<open>
  Python's \<open>str(n)\<close> for a non-negative integer: its decimal digits, most significant
  first. The keys of \<open>faiss_id_to_uid\<close> are such strings.
\<close>

definition digit_char :: "nat \<Rightarrow> char" where
  "digit_char d = char_of (48 + d)"

function str_nat :: "nat \<Rightarrow> string" where
  "str_nat n = (if n < 10 then [digit_char n] else str_nat (n div 10) @ [digit_char (n mod 10)])"
  by pat_completeness auto
termination
  by (relation "measure id") auto

declare str_nat.simps [simp del]

definition str_int :: "int \<Rightarrow> string" where
  "str_int i = (if i < 0 then CHR ''-'' # str_nat (nat (- i)) else str_nat (nat i))"

section \<open>embedding.py: the EmbeddingManager\<close>

text \<open>
  An email dict as \<open>_fetch_email_batch\<close> builds it. \<open>body\<close> is optional because
  \<open>_embed_batch\<close> reads it with \<open>email.get('body', '')\<close>; the other keys are read
  with \<open>email[...]\<close>. Bodies are text (the \<open>bytes\<close> branch of \<open>_embed_batch\<close> is
  never taken for the records of this program).
\<close>

record email =
  uid :: string
  subject :: string
  sender :: string
  body :: "string option"
  date :: string
  search_content :: string

text \<open>The content of \<open>faiss_mapping.json\<close>: either key may be missing (\<open>data.get(k, {})\<close>).\<close>

record mapping_json =
  json_uid_to_faiss_id :: "(string \<rightharpoonup> nat) option"
  json_faiss_id_to_uid :: "(string \<rightharpoonup> string) option"

text \<open>
  The manager object together with the two files it owns. The FAISS index is the list of
  the vectors added so far, in insertion order; \<open>index.ntotal\<close> is its length.
  \<open>encode_calls\<close> logs the argument of every \<open>model.encode\<close> call.
\<close>

record 'v manager =
  index :: "'v list"
  uid_to_faiss_id :: "string \<rightharpoonup> nat"
  faiss_id_to_uid :: "string \<rightharpoonup> string"
  faiss_index_file :: "'v list option"
  faiss_mapping_file :: "mapping_json option"
  encode_calls :: "string list list"

definition EMBEDDING_BATCH_SIZE :: nat where
  "EMBEDDING_BATCH_SIZE = 64"

definition save_mapping :: "'v manager \<Rightarrow> 'v manager" where
  "save_mapping m = m\<lparr>faiss_mapping_file :=
     Some \<lparr>json_uid_to_faiss_id = Some (uid_to_faiss_id m),
           json_faiss_id_to_uid = Some (faiss_id_to_uid m)\<rparr>\<rparr>"

definition save_index :: "'v manager \<Rightarrow> 'v manager" where
  "save_index m = save_mapping (m\<lparr>faiss_index_file := Some (index m)\<rparr>)"

definition load_mapping :: "'v manager \<Rightarrow> 'v manager" where
  "load_mapping m =
     (case faiss_mapping_file m of
        Some data \<Rightarrow>
          m\<lparr>uid_to_faiss_id := (case json_uid_to_faiss_id data of Some d \<Rightarrow> d | None \<Rightarrow> Map.empty),
            faiss_id_to_uid := (case json_faiss_id_to_uid data of Some d \<Rightarrow> d | None \<Rightarrow> Map.empty)\<rparr>
      | None \<Rightarrow> m\<lparr>uid_to_faiss_id := Map.empty, faiss_id_to_uid := Map.empty\<rparr>)"

text \<open>
  \<open>_load_or_create_index\<close>: read the index file when it exists, then the mapping;
  otherwise probe the model for its dimension (one \<open>encode(["test"])\<close> call), make an
  empty index and save both files.
\<close>

definition load_or_create_index :: "'v manager \<Rightarrow> 'v manager" where
  "load_or_create_index m =
     (case faiss_index_file m of
        Some ix \<Rightarrow> load_mapping (m\<lparr>index := ix\<rparr>)
      | None \<Rightarrow> save_index (m\<lparr>encode_calls := encode_calls m @ [[''test'']], index := []\<rparr>))"

text \<open>\<open>EmbeddingManager()\<close> on the given files and call log.\<close>

definition EmbeddingManager :: "'v list option \<Rightarrow> mapping_json option \<Rightarrow> string list list \<Rightarrow> 'v manager" where
  "EmbeddingManager ixf mpf calls =
     load_or_create_index
       \<lparr>index = [], uid_to_faiss_id = Map.empty, faiss_id_to_uid = Map.empty,
        faiss_index_file = ixf, faiss_mapping_file = mpf, encode_calls = calls\<rparr>"

text \<open>The loop \<open>for i, email in enumerate(batch)\<close> of \<open>_embed_batch\<close>; \<open>k\<close> is \<open>start_id + i\<close>.\<close>

fun update_mappings :: "nat \<Rightarrow> email list \<Rightarrow> 'v manager \<Rightarrow> 'v manager" where
  "update_mappings k [] m = m"
| "update_mappings k (e # es) m =
     update_mappings (Suc k) es
       (m\<lparr>uid_to_faiss_id := (uid_to_faiss_id m)(uid e \<mapsto> k),
          faiss_id_to_uid := (faiss_id_to_uid m)(str_nat k \<mapsto> uid e)\<rparr>)"

definition batch_bodies :: "email list \<Rightarrow> string list" where
  "batch_bodies batch = map (\<lambda>e. case body e of Some b \<Rightarrow> b | None \<Rightarrow> '''') batch"

text \<open>
  \<open>_embed_batch\<close>; \<open>enc\<close> is \<open>model.encode\<close> (with \<open>normalize_embeddings=True\<close>),
  \<open>index.add\<close> appends every row it is given.
\<close>

definition embed_batch :: "(string list \<Rightarrow> 'v list) \<Rightarrow> email list \<Rightarrow> 'v manager \<Rightarrow> 'v manager" where
  "embed_batch enc batch m =
     (let bodies = batch_bodies batch;
          embeddings = enc bodies;
          m1 = m\<lparr>encode_calls := encode_calls m @ [bodies]\<rparr>;
          start_id = length (index m1);
          m2 = m1\<lparr>index := index m1 @ embeddings\<rparr>
      in update_mappings start_id batch m2)"

text \<open>The loop \<open>for i in range(0, len(new_emails), Config.EMBEDDING_BATCH_SIZE)\<close>.\<close>

function embed_loop :: "(string list \<Rightarrow> 'v list) \<Rightarrow> nat \<Rightarrow> email list \<Rightarrow> 'v manager \<Rightarrow> 'v manager" where
  "embed_loop enc i new_emails m =
     (if i < length new_emails
      then embed_loop enc (i + EMBEDDING_BATCH_SIZE) new_emails
             (embed_batch enc (take EMBEDDING_BATCH_SIZE (drop i new_emails)) m)
      else m)"
  by pat_completeness auto
termination
  by (relation "measure (\<lambda>(enc, i, new_emails, m). length new_emails - i)")
     (auto simp: EMBEDDING_BATCH_SIZE_def)

declare embed_loop.simps [simp del]

definition embed_emails :: "(string list \<Rightarrow> 'v list) \<Rightarrow> email list \<Rightarrow> 'v manager \<Rightarrow> 'v manager" where
  "embed_emails enc emails m =
     (if emails = [] then m
      else let new_emails = filter (\<lambda>e. uid_to_faiss_id m (uid e) = None) emails
           in if new_emails = [] then m
              else save_index (embed_loop enc 0 new_emails m))"

text \<open>\<open>clear_index\<close>: unlink both files, reset the maps, recreate the index.\<close>

definition clear_index :: "'v manager \<Rightarrow> 'v manager" where
  "clear_index m =
     load_or_create_index
       (m\<lparr>faiss_index_file := None, faiss_mapping_file := None,
          uid_to_faiss_id := Map.empty, faiss_id_to_uid := Map.empty\<rparr>)"

text \<open>A sequence of \<open>embed_emails\<close> calls on one manager.\<close>

fun embed_all :: "(string list \<Rightarrow> 'v list) \<Rightarrow> email list list \<Rightarrow> 'v manager \<Rightarrow> 'v manager" where
  "embed_all enc [] m = m"
| "embed_all enc (r # rs) m = embed_all enc rs (embed_emails enc r m)"

text \<open>
  The uids in the order in which a sequence of \<open>embed_emails\<close> calls meets them for the
  first time, starting from the uids \<open>ids\<close> already indexed.
\<close>

fun insertion_order :: "string list \<Rightarrow> email list list \<Rightarrow> string list" where
  "insertion_order ids [] = ids"
| "insertion_order ids (r # rs) =
     insertion_order (ids @ filter (\<lambda>u. u \<notin> set ids) (map uid r)) rs"

text \<open>
  The two maps describe the list \<open>ids\<close>: \<open>uid_to_faiss_id\<close> sends the uid at position
  \<open>p\<close> to \<open>p\<close>, \<open>faiss_id_to_uid\<close> sends \<open>str(p)\<close> back to it, and neither has any
  other entry.
\<close>

definition maps_inv :: "'v manager \<Rightarrow> string list \<Rightarrow> bool" where
  "maps_inv m ids \<longleftrightarrow>
     distinct ids \<and>
     (\<forall>u p. uid_to_faiss_id m u = Some p \<longleftrightarrow> p < length ids \<and> ids ! p = u) \<and>
     (\<forall>k u. faiss_id_to_uid m k = Some u \<longleftrightarrow> (\<exists>p<length ids. k = str_nat p \<and> ids ! p = u))"

definition mgr_inv :: "'v manager \<Rightarrow> string list \<Rightarrow> bool" where
  "mgr_inv m ids \<longleftrightarrow> length (index m) = length ids \<and> maps_inv m ids"

text \<open>Three records with the uids 1, 2, 3.\<close>

definition rec3 :: "email list" where
  "rec3 = [\<lparr>uid = ''1'', subject = ''a'', sender = ''x'', body = Some ''one'', date = '''', search_content = ''a'' @ [CHR 0x0A] @ ''one''\<rparr>,
           \<lparr>uid = ''2'', subject = ''b'', sender = ''y'', body = Some ''two'', date = '''', search_content = ''b'' @ [CHR 0x0A] @ ''two''\<rparr>,
           \<lparr>uid = ''3'', subject = ''c'', sender = ''z'', body = Some ''three'', date = '''', search_content = ''c'' @ [CHR 0x0A] @ ''three''\<rparr>]"

section \<open>metadata_store.py: the emails table\<close>

text \<open>
  A row of the \<open>emails\<close> table, with the columns the queries of search.py read. Every
  value is text: \<open>update_emails\<close> stores the strings of the fetched record. The table
  is the list of its rows in rowid order; \<open>uid\<close> is the primary key. \<open>row_date\<close> is the
  text that was inserted; a date text that is a well-formed number is kept by SQLite as
  that number (see \<open>sql_key\<close> below) and would reach Python as a number, so the rows of
  the semantic search are those whose date text is not a number, as the text of a
  \<open>Date\<close> header is.
\<close>

record row =
  row_uid :: string
  row_subject :: string
  row_sender :: string
  row_date :: string
  row_body :: string

definition to_row :: "email \<Rightarrow> row" where
  "to_row e = \<lparr>row_uid = uid e, row_subject = subject e, row_sender = sender e,
              row_date = date e, row_body = (case body e of Some b \<Rightarrow> b | None \<Rightarrow> '''')\<rparr>"

text \<open>\<open>INSERT OR REPLACE\<close>: a row with the same uid is deleted, the new row is appended.\<close>

definition insert_or_replace :: "row \<Rightarrow> row list \<Rightarrow> row list" where
  "insert_or_replace r tbl = filter (\<lambda>x. row_uid x \<noteq> row_uid r) tbl @ [r]"

definition update_emails :: "email list \<Rightarrow> row list \<Rightarrow> row list" where
  "update_emails emails tbl = fold (\<lambda>e t. insert_or_replace (to_row e) t) emails tbl"

section \<open>imap_client.py and main.py: UIDVALIDITY\<close>

text \<open>
  Everything the program keeps on disk, and the log of \<open>model.encode\<close> calls.
  \<open>uidvalidity_file\<close> is what \<open>_load_last_uid_validity\<close> reads: \<open>None\<close> when
  uidvalidity.txt is missing or does not hold an integer.
\<close>

record 'v world =
  uidvalidity_file :: "int option"
  emails_table :: "row list"
  last_fetch :: "string option"
  index_file :: "'v list option"
  mapping_file :: "mapping_json option"
  model_calls :: "string list list"

text \<open>
  \<open>check_uid_validity\<close>. \<open>current\<close> is the UIDVALIDITY read from the server's STATUS
  reply, \<open>None\<close> when the status is not OK, the reply cannot be parsed or the call
  raises. The result is the returned flag and the content of uidvalidity.txt afterwards.
\<close>

definition check_uid_validity :: "int option \<Rightarrow> int option \<Rightarrow> bool \<times> int option" where
  "check_uid_validity current last_known =
     (case current of
        None \<Rightarrow> (False, last_known)
      | Some c \<Rightarrow>
          (case last_known of
             None \<Rightarrow> (False, Some c)
           | Some l \<Rightarrow> if c \<noteq> l then (True, Some c) else (False, last_known)))"

text \<open>A manager built on the files of the world, and the world after the manager's work.\<close>

definition open_manager :: "'v world \<Rightarrow> 'v manager" where
  "open_manager w = EmbeddingManager (index_file w) (mapping_file w) (model_calls w)"

definition close_manager :: "'v manager \<Rightarrow> 'v world \<Rightarrow> 'v world" where
  "close_manager m w = w\<lparr>index_file := faiss_index_file m, mapping_file := faiss_mapping_file m,
                          model_calls := encode_calls m\<rparr>"

text \<open>
  Lines 59 to 65 of \<open>fetch_emails\<close> in main.py: check UIDVALIDITY; when it changed,
  \<open>metadata_store.clear()\<close> and \<open>EmbeddingManager().clear_index()\<close>.
\<close>

definition check_and_clear :: "int option \<Rightarrow> 'v world \<Rightarrow> 'v world" where
  "check_and_clear current w =
     (let (uid_validity_changed, saved) = check_uid_validity current (uidvalidity_file w);
          w1 = w\<lparr>uidvalidity_file := saved\<rparr>
      in if uid_validity_changed
         then let w2 = w1\<lparr>emails_table := []\<rparr>
              in close_manager (clear_index (open_manager w2)) w2
         else w1)"

text \<open>
  The rest of \<open>fetch_emails\<close>: \<open>fetched\<close> is what \<open>imap_client.fetch_emails()\<close>
  returned, \<open>now\<close> the timestamp of the run.
\<close>

definition fetch_emails :: "(string list \<Rightarrow> 'v list) \<Rightarrow> int option \<Rightarrow> email list \<Rightarrow> string \<Rightarrow> 'v world \<Rightarrow> 'v world" where
  "fetch_emails enc current fetched now w =
     (let w1 = check_and_clear current w
      in if fetched \<noteq> []
         then let w2 = w1\<lparr>emails_table := update_emails fetched (emails_table w1)\<rparr>;
                  w3 = close_manager (embed_emails enc fetched (open_manager w2)) w2
              in w3\<lparr>last_fetch := Some now\<rparr>
         else w1)"

text \<open>A world with two stored records, their vectors and a persisted UIDVALIDITY of 5.\<close>

definition world5 :: "nat world" where
  "world5 = \<lparr>uidvalidity_file = Some 5,
             emails_table = map to_row (take 2 rec3),
             last_fetch = Some ''2025-07-13T10:00:00'',
             index_file = Some [3, 3],
             mapping_file = Some \<lparr>json_uid_to_faiss_id = Some [''1'' \<mapsto> 0, ''2'' \<mapsto> 1],
                                  json_faiss_id_to_uid = Some [''0'' \<mapsto> ''1'', ''1'' \<mapsto> ''2'']\<rparr>,
             model_calls = []\<rparr>"

section \<open>search.py: the SearchManager\<close>

text \<open>
  The library functions the search calls, as parameters:
  \<^item> \<open>encode\<close>: \<open>SentenceTransformer.encode\<close>;
  \<^item> \<open>index_search ix q k\<close>: \<open>index.search(q, k)\<close> on the FAISS index \<open>ix\<close>, giving the rows
    \<open>distances[0]\<close> and \<open>indices[0]\<close>;
  \<^item> \<open>fromisoformat\<close>: \<open>datetime.fromisoformat(s).replace(tzinfo=None)\<close>, \<open>None\<close> for a
    ValueError;
  \<^item> \<open>strptime s fmt\<close>: \<open>datetime.strptime(s, fmt)\<close>, \<open>None\<close> for a ValueError;
  \<^item> \<open>re_compile p\<close>: \<open>re.compile(p)\<close>, \<open>None\<close> for \<open>re.error\<close>; a compiled pattern
    is its \<open>search\<close> predicate.
  A naive datetime is the number of microseconds since \<open>datetime.min\<close>; scores and
  distances are real numbers (the rounding of floats is not modelled).
\<close>

datatype error = ValueError | ReError

record 'v lib =
  encode :: "string list \<Rightarrow> 'v list"
  index_search :: "'v list \<Rightarrow> 'v list \<Rightarrow> nat \<Rightarrow> real list \<times> int list"
  fromisoformat :: "string \<Rightarrow> nat option"
  strptime :: "string \<Rightarrow> string \<Rightarrow> nat option"
  re_compile :: "string \<Rightarrow> (string \<Rightarrow> bool) option"

definition datetime_min :: nat where
  "datetime_min = 0"

text \<open>The dict of one search result.\<close>

record result =
  res_uid :: string
  res_subject :: string
  res_sender :: string
  res_date :: string
  body_preview :: string
  full_body :: string
  similarity_score :: real

record 'v search_manager =
  embedding_manager :: "'v manager"
  table :: "row list"
  db_queries :: nat

text \<open>\<open>str.lower()\<close> and SQL \<open>LOWER\<close> on ASCII text.\<close>

definition lower_char :: "char \<Rightarrow> char" where
  "lower_char c = (if CHR ''A'' \<le> c \<and> c \<le> CHR ''Z'' then char_of (of_char c + (32::nat)) else c)"

definition lower :: "string \<Rightarrow> string" where
  "lower s = map lower_char s"

text \<open>Python's truth value of an optional string argument (\<open>if date_after:\<close>).\<close>

definition given :: "string option \<Rightarrow> bool" where
  "given a = (case a of None \<Rightarrow> False | Some s \<Rightarrow> s \<noteq> [])"

text \<open>\<open>date_str.replace('Z', '+00:00')\<close>\<close>

definition replace_Z :: "string \<Rightarrow> string" where
  "replace_Z s = concat (map (\<lambda>c. if c = CHR ''Z'' then ''+00:00'' else [c]) s)"

text \<open>\<open>_parse_date\<close> on the text of a stored date.\<close>

definition parse_date :: "'v lib \<Rightarrow> string \<Rightarrow> nat" where
  "parse_date L date_str =
     (case fromisoformat L (replace_Z date_str) of
        Some parsed \<Rightarrow> parsed
      | None \<Rightarrow>
          (case strptime L date_str ''%Y-%m-%d %H:%M:%S'' of
             Some d \<Rightarrow> d
           | None \<Rightarrow>
               (case strptime L (take 10 date_str) ''%Y-%m-%d'' of
                  Some d \<Rightarrow> d
                | None \<Rightarrow> datetime_min)))"

definition preview :: "string \<Rightarrow> string" where
  "preview b = (if length b > 200 then take 200 b @ ''...'' else b)"

text \<open>
  \<open>list.sort(key=f, reverse=True)\<close>: descending, elements with equal keys in their
  original order.
\<close>

definition sort_desc :: "('a \<Rightarrow> 'k::linorder) \<Rightarrow> 'a list \<Rightarrow> 'a list" where
  "sort_desc f xs = rev (sort_key f (rev xs))"

text \<open>The loop over \<open>indices[0]\<close> that turns index positions into uids.\<close>

fun collect_uids :: "'v manager \<Rightarrow> int list \<Rightarrow> string list" where
  "collect_uids m [] = []"
| "collect_uids m (idx # rest) =
     (if idx = - 1 then collect_uids m rest
      else (case faiss_id_to_uid m (str_int idx) of
              None \<Rightarrow> collect_uids m rest
            | Some u \<Rightarrow> if u \<noteq> [] then u # collect_uids m rest else collect_uids m rest))"

text \<open>
  \<open>_fetch_metadata_for_uids\<close>: one \<open>SELECT ... WHERE uid IN (...)\<close>, then one result
  per uid that has a row, scored by the distance at the uid's place in \<open>uids\<close>.
\<close>

definition fetch_metadata_for_uids :: "row list \<Rightarrow> string list \<Rightarrow> real list \<Rightarrow> result list" where
  "fetch_metadata_for_uids tbl uids distances =
     concat (map (\<lambda>(i, u).
        (case find (\<lambda>r. row_uid r = u) tbl of
           None \<Rightarrow> []
         | Some r \<Rightarrow>
             [\<lparr>res_uid = row_uid r, res_subject = row_subject r, res_sender = row_sender r,
               res_date = row_date r, body_preview = preview (row_body r),
               full_body = row_body r,
               similarity_score = (if i < length distances then 1 - distances ! i else 0)\<rparr>]))
        (enumerate 0 uids))"

definition filter_date_after :: "'v lib \<Rightarrow> string option \<Rightarrow> result list \<Rightarrow> error + result list" where
  "filter_date_after L date_after results =
     (if given date_after
      then (case strptime L (the date_after) ''%Y-%m-%d'' of
              None \<Rightarrow> Inl ValueError
            | Some after_date \<Rightarrow>
                Inr (filter (\<lambda>email. parse_date L (res_date email) \<ge> after_date) results))
      else Inr results)"

definition filter_date_before :: "'v lib \<Rightarrow> string option \<Rightarrow> result list \<Rightarrow> error + result list" where
  "filter_date_before L date_before results =
     (if given date_before
      then (case strptime L (the date_before) ''%Y-%m-%d'' of
              None \<Rightarrow> Inl ValueError
            | Some before_date \<Rightarrow>
                Inr (filter (\<lambda>email. parse_date L (res_date email) \<le> before_date) results))
      else Inr results)"

definition filter_sender :: "string option \<Rightarrow> result list \<Rightarrow> result list" where
  "filter_sender sender_arg results =
     (if given sender_arg
      then filter (\<lambda>email. sublist (lower (the sender_arg)) (lower (res_sender email))) results
      else results)"

definition filter_regex :: "'v lib \<Rightarrow> string option \<Rightarrow> result list \<Rightarrow> error + result list" where
  "filter_regex L regex results =
     (if given regex
      then (case re_compile L (the regex) of
              None \<Rightarrow> Inl ReError
            | Some pattern \<Rightarrow> Inr (filter (\<lambda>email. pattern (body_preview email)) results))
      else Inr results)"

text \<open>\<open>search_emails_enhanced\<close>; the result is the returned list and the manager afterwards.\<close>

definition search_emails_enhanced ::
  "'v lib \<Rightarrow> string \<Rightarrow> string option \<Rightarrow> string option \<Rightarrow> string option \<Rightarrow> string option \<Rightarrow> nat
   \<Rightarrow> 'v search_manager \<Rightarrow> error + (result list \<times> 'v search_manager)" where
  "search_emails_enhanced L query date_after date_before sender_arg regex limit s =
     (let m = embedding_manager s;
          query_embedding = encode L [query];
          s1 = s\<lparr>embedding_manager := m\<lparr>encode_calls := encode_calls m @ [[query]]\<rparr>\<rparr>;
          (distances, indices) = index_search L (index m) query_embedding limit;
          uids = collect_uids m indices
      in if uids = [] then Inr ([], s1)
         else
           let results = fetch_metadata_for_uids (table s1) uids distances;
               s2 = s1\<lparr>db_queries := db_queries s1 + 1\<rparr>
           in case filter_date_after L date_after results of
                Inl e \<Rightarrow> Inl e
              | Inr r1 \<Rightarrow>
                  (case filter_date_before L date_before r1 of
                     Inl e \<Rightarrow> Inl e
                   | Inr r2 \<Rightarrow>
                       (case filter_regex L regex (filter_sender sender_arg r2) of
                          Inl e \<Rightarrow> Inl e
                        | Inr r4 \<Rightarrow> Inr (take limit (sort_desc similarity_score r4), s2))))"

section \<open>embedding.py: search_similar_emails\<close>




section \<open>A concrete library and store for the worked examples\<close>

text \<open>
  Vectors are natural numbers (the length of the text). The index search returns the
  first \<open>k\<close> positions with distances \<open>0, 0.1, 0.2, \<dots>\<close> and pads with label \<open>-1\<close>, as
  FAISS does when it finds fewer than \<open>k\<close> neighbours. The date parsers are given on the
  texts used below, where they agree with Python: \<open>strptime\<close> reads \<open>0001-01-01\<close> as
  \<open>datetime.min\<close> and \<open>0001-01-02\<close> as one day later, and every parser rejects the other
  texts used (\<open>invalid-date\<close>, an RFC 2822 date header). A pattern without
  metacharacters matches where it occurs in the text.
\<close>

definition lib0 :: "nat lib" where
  "lib0 = \<lparr>encode = map length,
           index_search = (\<lambda>ix q k.
             (map (\<lambda>i. real i / 10) [0..<min k (length ix)] @ replicate (k - length ix) 1,
              map int [0..<min k (length ix)] @ replicate (k - length ix) (- 1))),
           fromisoformat = (\<lambda>s. None),
           strptime = (\<lambda>s fmt.
             if fmt = ''%Y-%m-%d'' \<and> s = ''0001-01-01'' then Some 0
             else if fmt = ''%Y-%m-%d'' \<and> s = ''0001-01-02'' then Some 86400000000
             else None),
           re_compile = (\<lambda>p. Some (sublist p))\<rparr>"

definition long_body :: string where
  "long_body = replicate 200 (CHR ''x'') @ ''needle''"

definition store1 :: "nat search_manager" where
  "store1 =
     \<lparr>embedding_manager =
        \<lparr>index = [206, 5], uid_to_faiss_id = [''1'' \<mapsto> 0, ''2'' \<mapsto> 1],
         faiss_id_to_uid = [''0'' \<mapsto> ''1'', ''1'' \<mapsto> ''2''],
         faiss_index_file = Some [206, 5],
         faiss_mapping_file = Some \<lparr>json_uid_to_faiss_id = Some [''1'' \<mapsto> 0, ''2'' \<mapsto> 1],
                                     json_faiss_id_to_uid = Some [''0'' \<mapsto> ''1'', ''1'' \<mapsto> ''2'']\<rparr>,
         encode_calls = []\<rparr>,
      table =
        [\<lparr>row_uid = ''1'', row_subject = ''Report'', row_sender = ''Ann <ann@example.com>'',
          row_date = ''Mon, 14 Jul 2025 10:00:00 +0000'', row_body = long_body\<rparr>,
         \<lparr>row_uid = ''2'', row_subject = ''Hello'', row_sender = ''Bob <bob@example.com>'',
          row_date = ''invalid-date'', row_body = ''hello''\<rparr>],
      db_queries = 0\<rparr>"

text \<open>The uids of a search outcome.\<close>

definition uids_of :: "error + (result list \<times> 'a) \<Rightarrow> error + string list" where
  "uids_of x = (case x of Inl e \<Rightarrow> Inl e | Inr (rs, s) \<Rightarrow> Inr (map res_uid rs))"


text \<open>The same store behind a freshly created, empty index.\<close>

definition store0 :: "nat search_manager" where
  "store0 = store1\<lparr>embedding_manager := EmbeddingManager None None []\<rparr>"

section \<open>search.py: the keyword fallback\<close>


















section \<open>Facts about the text helpers\<close>

lemma str_nat_not_Nil: "str_nat n \<noteq> []"
  by (subst str_nat.simps) simp

lemma digit_char_inj: "a < 10 \<Longrightarrow> b < 10 \<Longrightarrow> digit_char a = digit_char b \<Longrightarrow> a = b"
proof -
  assume a: "a < 10" and b: "b < 10" and e: "digit_char a = digit_char b"
  from e have "of_char (char_of (48 + a) :: char) = (of_char (char_of (48 + b) :: char) :: nat)"
    by (simp add: digit_char_def)
  with a b show "a = b" by simp
qed

lemma str_nat_inj: "str_nat n = str_nat m \<Longrightarrow> n = m"
proof (induction n arbitrary: m rule: str_nat.induct)
  case (1 n)
  show ?case
  proof (cases "n < 10")
    case True
    note n = this
    show ?thesis
    proof (cases "m < 10")
      case True
      with n "1.prems" show ?thesis
        by (simp add: str_nat.simps [of n] str_nat.simps [of m] digit_char_inj)
    next
      case False
      with n "1.prems" show ?thesis
        using str_nat_not_Nil [of "m div 10"]
        by (simp add: str_nat.simps [of n] str_nat.simps [of m])
    qed
  next
    case False
    note n = this
    show ?thesis
    proof (cases "m < 10")
      case True
      with n "1.prems" show ?thesis
        using str_nat_not_Nil [of "n div 10"]
        by (simp add: str_nat.simps [of n] str_nat.simps [of m])
    next
      case False
      with n "1.prems" have eq: "str_nat (n div 10) = str_nat (m div 10)"
        and d: "digit_char (n mod 10) = digit_char (m mod 10)"
        by (simp_all add: str_nat.simps [of n] str_nat.simps [of m])
      from "1.IH" [OF n eq] have "n div 10 = m div 10" .
      moreover from d have "n mod 10 = m mod 10"
        by (intro digit_char_inj) simp_all
      ultimately show ?thesis
        by (metis div_mult_mod_eq)
    qed
  qed
qed

section \<open>The incremental indexer\<close>

lemma update_mappings_dom:
  "dom (uid_to_faiss_id (update_mappings k es m)) = dom (uid_to_faiss_id m) \<union> uid ` set es"
  by (induction es arbitrary: k m) auto

lemma embed_batch_dom:
  "dom (uid_to_faiss_id (embed_batch enc batch m)) = dom (uid_to_faiss_id m) \<union> uid ` set batch"
  by (simp add: embed_batch_def Let_def update_mappings_dom)

lemma set_take_drop_step:
  "set (take b (drop i xs)) \<union> set (drop (i + b) xs) = set (drop i xs)"
proof -
  have "take b (drop i xs) @ drop b (drop i xs) = drop i xs" by (rule append_take_drop_id)
  then have "set (take b (drop i xs)) \<union> set (drop b (drop i xs)) = set (drop i xs)"
    by (metis set_append)
  then show ?thesis by (simp add: add.commute)
qed

lemma embed_loop_dom:
  "dom (uid_to_faiss_id (embed_loop enc i new m)) = dom (uid_to_faiss_id m) \<union> uid ` set (drop i new)"
proof (induction enc i new m rule: embed_loop.induct)
  case (1 enc i new m)
  show ?case
  proof (cases "i < length new")
    case True
    have "dom (uid_to_faiss_id (embed_loop enc i new m)) =
          dom (uid_to_faiss_id m) \<union> uid ` set (take EMBEDDING_BATCH_SIZE (drop i new))
            \<union> uid ` set (drop (i + EMBEDDING_BATCH_SIZE) new)"
      using True "1.IH" [OF True] by (simp add: embed_loop.simps [of enc i new m] embed_batch_dom)
    also have "\<dots> = dom (uid_to_faiss_id m) \<union> uid ` set (drop i new)"
      using set_take_drop_step [of EMBEDDING_BATCH_SIZE i new] by (auto simp: image_Un [symmetric] simp del: image_Un)
    finally show ?thesis .
  next
    case False
    then show ?thesis by (simp add: embed_loop.simps [of enc i new m])
  qed
qed

lemma save_index_maps [simp]:
  "uid_to_faiss_id (save_index m) = uid_to_faiss_id m"
  "faiss_id_to_uid (save_index m) = faiss_id_to_uid m"
  "index (save_index m) = index m"
  "encode_calls (save_index m) = encode_calls m"
  by (simp_all add: save_index_def save_mapping_def)

lemma embed_emails_dom:
  "dom (uid_to_faiss_id (embed_emails enc emails m)) = dom (uid_to_faiss_id m) \<union> uid ` set emails"
proof -
  let ?new = "filter (\<lambda>e. uid_to_faiss_id m (uid e) = None) emails"
  have "dom (uid_to_faiss_id m) \<union> uid ` set ?new = dom (uid_to_faiss_id m) \<union> uid ` set emails"
    by auto
  moreover have "?new = [] \<Longrightarrow> uid ` set emails \<subseteq> dom (uid_to_faiss_id m)"
    by (auto simp: filter_empty_conv)
  ultimately show ?thesis
    by (auto simp: embed_emails_def Let_def embed_loop_dom simp del: set_filter)
qed

text \<open>
  Claim C2. Indexing the same records twice: after \<open>embed_emails R\<close>, every record of
  \<open>R\<close> has its uid in \<open>uid_to_faiss_id\<close>, so the filter of the second call keeps
  nothing and the second call returns the manager unchanged (index, both maps, files and
  the log of \<open>model.encode\<close> calls). This holds for every list \<open>R\<close> and every manager.
\<close>

theorem embed_emails_idempotent:
  "filter (\<lambda>e. uid_to_faiss_id (embed_emails enc R m) (uid e) = None) R = []
   \<and> embed_emails enc R (embed_emails enc R m) = embed_emails enc R m"
proof -
  have "\<forall>e\<in>set R. uid e \<in> dom (uid_to_faiss_id (embed_emails enc R m))"
    by (simp add: embed_emails_dom)
  then have f: "filter (\<lambda>e. uid_to_faiss_id (embed_emails enc R m) (uid e) = None) R = []"
    by (auto simp: filter_empty_conv)
  then show ?thesis
    by (simp add: embed_emails_def [of enc R "embed_emails enc R m"] Let_def)
qed

lemma update_mappings_other [simp]:
  "index (update_mappings k es m) = index m"
  "encode_calls (update_mappings k es m) = encode_calls m"
  "faiss_index_file (update_mappings k es m) = faiss_index_file m"
  "faiss_mapping_file (update_mappings k es m) = faiss_mapping_file m"
  by (induction es arbitrary: k m) simp_all

lemma nth_snoc_iff:
  "u \<notin> set ids \<Longrightarrow>
   (p < length (ids @ [u]) \<and> (ids @ [u]) ! p = v) \<longleftrightarrow>
   (if v = u then p = length ids else p < length ids \<and> ids ! p = v)"
proof -
  assume new: "u \<notin> set ids"
  consider "p < length ids" | "p = length ids" | "length ids < p" by linarith
  then show ?thesis
  proof cases
    case 1
    then have "ids ! p \<in> set ids" by simp
    with new have "ids ! p \<noteq> u" by metis
    with 1 show ?thesis by (simp add: nth_append)
  next
    case 2
    then show ?thesis by (simp add: nth_append eq_commute)
  next
    case 3
    then show ?thesis by simp
  qed
qed

lemma maps_inv_step:
  assumes inv: "maps_inv m ids" and new: "u \<notin> set ids"
  shows "maps_inv (m\<lparr>uid_to_faiss_id := (uid_to_faiss_id m)(u \<mapsto> length ids),
                     faiss_id_to_uid := (faiss_id_to_uid m)(str_nat (length ids) \<mapsto> u)\<rparr>) (ids @ [u])"
proof -
  from inv have d: "distinct ids"
    and f: "\<forall>v p. uid_to_faiss_id m v = Some p \<longleftrightarrow> p < length ids \<and> ids ! p = v"
    and g: "\<forall>k v. faiss_id_to_uid m k = Some v \<longleftrightarrow> (\<exists>p<length ids. k = str_nat p \<and> ids ! p = v)"
    unfolding maps_inv_def by blast+
  have 1: "distinct (ids @ [u])" using d new by simp
  have 2: "((uid_to_faiss_id m)(u \<mapsto> length ids)) v = Some p \<longleftrightarrow>
           p < length (ids @ [u]) \<and> (ids @ [u]) ! p = v" for v p
    unfolding nth_snoc_iff [OF new] using f by (simp add: eq_commute)
  have 3: "((faiss_id_to_uid m)(str_nat (length ids) \<mapsto> u)) k = Some v \<longleftrightarrow>
           (\<exists>p<length (ids @ [u]). k = str_nat p \<and> (ids @ [u]) ! p = v)" for k v
  proof (cases "k = str_nat (length ids)")
    case True
    have "(\<exists>p<length (ids @ [u]). k = str_nat p \<and> (ids @ [u]) ! p = v) \<longleftrightarrow> v = u"
    proof
      assume "\<exists>p<length (ids @ [u]). k = str_nat p \<and> (ids @ [u]) ! p = v"
      then obtain p where p: "k = str_nat p" "(ids @ [u]) ! p = v" by blast
      with True have "p = length ids" by (metis str_nat_inj)
      with p show "v = u" by simp
    next
      assume "v = u"
      with True show "\<exists>p<length (ids @ [u]). k = str_nat p \<and> (ids @ [u]) ! p = v"
        by (intro exI [of _ "length ids"]) simp
    qed
    with True show ?thesis by (simp add: eq_commute)
  next
    case False
    have "(\<exists>p<length (ids @ [u]). k = str_nat p \<and> (ids @ [u]) ! p = v) \<longleftrightarrow>
          (\<exists>p<length ids. k = str_nat p \<and> ids ! p = v)"
    proof
      assume "\<exists>p<length (ids @ [u]). k = str_nat p \<and> (ids @ [u]) ! p = v"
      then obtain p where p: "p < length (ids @ [u])" "k = str_nat p" "(ids @ [u]) ! p = v" by blast
      with False have "p \<noteq> length ids" by blast
      with p have "p < length ids" by simp
      with p show "\<exists>p<length ids. k = str_nat p \<and> ids ! p = v"
        by (intro exI [of _ p]) (simp add: nth_append)
    next
      assume "\<exists>p<length ids. k = str_nat p \<and> ids ! p = v"
      then obtain p where p: "p < length ids" "k = str_nat p" "ids ! p = v" by blast
      then show "\<exists>p<length (ids @ [u]). k = str_nat p \<and> (ids @ [u]) ! p = v"
        by (intro exI [of _ p]) (simp add: nth_append)
    qed
    with False g show ?thesis by simp
  qed
  show ?thesis
    unfolding maps_inv_def
  proof (intro conjI allI)
    show "distinct (ids @ [u])" by (rule 1)
  next
    fix v p
    show "uid_to_faiss_id (m\<lparr>uid_to_faiss_id := (uid_to_faiss_id m)(u \<mapsto> length ids),
             faiss_id_to_uid := (faiss_id_to_uid m)(str_nat (length ids) \<mapsto> u)\<rparr>) v = Some p
          \<longleftrightarrow> p < length (ids @ [u]) \<and> (ids @ [u]) ! p = v"
      using 2 [of v p] by (simp del: fun_upd_apply)
  next
    fix k v
    show "faiss_id_to_uid (m\<lparr>uid_to_faiss_id := (uid_to_faiss_id m)(u \<mapsto> length ids),
             faiss_id_to_uid := (faiss_id_to_uid m)(str_nat (length ids) \<mapsto> u)\<rparr>) k = Some v
          \<longleftrightarrow> (\<exists>p<length (ids @ [u]). k = str_nat p \<and> (ids @ [u]) ! p = v)"
      using 3 [of k v] by (simp del: fun_upd_apply)
  qed
qed


lemma update_mappings_inv:
  "maps_inv m ids \<Longrightarrow> distinct (map uid es) \<Longrightarrow> uid ` set es \<inter> set ids = {} \<Longrightarrow>
   maps_inv (update_mappings (length ids) es m) (ids @ map uid es)"
proof (induction es arbitrary: m ids)
  case Nil
  then show ?case by simp
next
  case (Cons e es)
  from Cons.prems(3) have new: "uid e \<notin> set ids" by auto
  let ?m = "m\<lparr>uid_to_faiss_id := (uid_to_faiss_id m)(uid e \<mapsto> length ids),
              faiss_id_to_uid := (faiss_id_to_uid m)(str_nat (length ids) \<mapsto> uid e)\<rparr>"
  have a: "maps_inv ?m (ids @ [uid e])"
    by (rule maps_inv_step [OF Cons.prems(1) new])
  have b: "distinct (map uid es)" using Cons.prems(2) by simp
  have c: "uid ` set es \<inter> set (ids @ [uid e]) = {}"
    using Cons.prems(2) Cons.prems(3) by auto
  have "maps_inv (update_mappings (length (ids @ [uid e])) es ?m) ((ids @ [uid e]) @ map uid es)"
    using a b c by (rule Cons.IH)
  then show ?case by simp
qed

lemma embed_batch_inv:
  assumes enc: "\<forall>ts. length (enc ts) = length ts"
    and inv: "mgr_inv m ids" and d: "distinct (map uid batch)"
    and disj: "uid ` set batch \<inter> set ids = {}"
  shows "mgr_inv (embed_batch enc batch m) (ids @ map uid batch)"
proof -
  let ?m2 = "m\<lparr>encode_calls := encode_calls m @ [batch_bodies batch],
               index := index m @ enc (batch_bodies batch)\<rparr>"
  from inv have len: "length (index m) = length ids" and mi: "maps_inv m ids"
    by (simp_all add: mgr_inv_def)
  have "maps_inv ?m2 ids" using mi by (simp add: maps_inv_def)
  then have "maps_inv (update_mappings (length ids) batch ?m2) (ids @ map uid batch)"
    using d disj by (rule update_mappings_inv)
  moreover have "embed_batch enc batch m = update_mappings (length ids) batch ?m2"
    by (simp add: embed_batch_def Let_def len)
  moreover have "length (index ?m2) = length (ids @ map uid batch)"
    using enc len by (simp add: batch_bodies_def)
  ultimately show ?thesis
    by (simp add: mgr_inv_def)
qed


lemma embed_loop_inv:
  "\<forall>ts. length (enc ts) = length ts \<Longrightarrow> mgr_inv m ids \<Longrightarrow>
   distinct (map uid (drop i new)) \<Longrightarrow> uid ` set (drop i new) \<inter> set ids = {} \<Longrightarrow>
   mgr_inv (embed_loop enc i new m) (ids @ map uid (drop i new))"
proof (induction enc i new m arbitrary: ids rule: embed_loop.induct)
  case (1 enc i new m)
  show ?case
  proof (cases "i < length new")
    case True
    let ?b = "take EMBEDDING_BATCH_SIZE (drop i new)"
    let ?r = "drop (i + EMBEDDING_BATCH_SIZE) new"
    have split: "drop i new = ?b @ ?r"
      by (metis append_take_drop_id drop_drop add.commute)
    from "1.prems"(3) have "distinct (map uid (?b @ ?r))"
      by (subst (asm) split)
    then have db: "distinct (map uid ?b)" and dr: "distinct (map uid ?r)"
      and br: "uid ` set ?b \<inter> uid ` set ?r = {}"
      by simp_all
    from "1.prems"(4) have "uid ` set (?b @ ?r) \<inter> set ids = {}"
      by (subst (asm) split)
    then have bi: "uid ` set ?b \<inter> set ids = {}" and ri: "uid ` set ?r \<inter> set ids = {}"
      by auto
    have inv1: "mgr_inv (embed_batch enc ?b m) (ids @ map uid ?b)"
      by (rule embed_batch_inv [OF "1.prems"(1) "1.prems"(2) db bi])
    have disj: "uid ` set ?r \<inter> set (ids @ map uid ?b) = {}"
      using ri br by auto
    have "mgr_inv (embed_loop enc (i + EMBEDDING_BATCH_SIZE) new (embed_batch enc ?b m))
            ((ids @ map uid ?b) @ map uid ?r)"
      by (rule "1.IH" [OF True "1.prems"(1) inv1 dr disj])
    moreover have "map uid (drop i new) = map uid ?b @ map uid ?r"
      by (metis split map_append)
    then have "(ids @ map uid ?b) @ map uid ?r = ids @ map uid (drop i new)"
      by simp
    ultimately show ?thesis
      using True by (simp add: embed_loop.simps [of enc i new m])
  next
    case False
    with "1.prems" show ?thesis by (simp add: embed_loop.simps [of enc i new m])
  qed
qed

lemma mgr_inv_save_index: "mgr_inv (save_index m) ids = mgr_inv m ids"
  by (simp add: mgr_inv_def maps_inv_def)

lemma mgr_inv_lookup_None: "mgr_inv m ids \<Longrightarrow> uid_to_faiss_id m u = None \<longleftrightarrow> u \<notin> set ids"
proof -
  assume "mgr_inv m ids"
  then have f: "\<forall>v p. uid_to_faiss_id m v = Some p \<longleftrightarrow> p < length ids \<and> ids ! p = v"
    unfolding mgr_inv_def maps_inv_def by blast
  show ?thesis
  proof
    assume n: "uid_to_faiss_id m u = None"
    show "u \<notin> set ids"
    proof
      assume "u \<in> set ids"
      then obtain p where "p < length ids" "ids ! p = u" by (auto simp: in_set_conv_nth)
      with f have "uid_to_faiss_id m u = Some p" by blast
      with n show False by simp
    qed
  next
    assume "u \<notin> set ids"
    show "uid_to_faiss_id m u = None"
    proof (cases "uid_to_faiss_id m u")
      case None then show ?thesis .
    next
      case (Some p)
      with f have "p < length ids" "ids ! p = u" by blast+
      then have "u \<in> set ids" by auto
      with \<open>u \<notin> set ids\<close> show ?thesis by blast
    qed
  qed
qed

lemma embed_emails_inv:
  assumes enc: "\<forall>ts. length (enc ts) = length ts"
    and inv: "mgr_inv m ids" and d: "distinct (map uid r)"
  shows "mgr_inv (embed_emails enc r m) (ids @ filter (\<lambda>u. u \<notin> set ids) (map uid r))"
proof -
  let ?new = "filter (\<lambda>e. uid_to_faiss_id m (uid e) = None) r"
  have new: "?new = filter (\<lambda>e. uid e \<notin> set ids) r"
    using mgr_inv_lookup_None [OF inv] by simp
  have ids: "filter (\<lambda>u. u \<notin> set ids) (map uid r) = map uid ?new"
    by (simp add: new filter_map comp_def)
  have dn: "distinct (map uid (drop 0 ?new))"
    using d by (simp add: distinct_map_filter)
  have disj: "uid ` set (drop 0 ?new) \<inter> set ids = {}"
    by (auto simp: new)
  have "mgr_inv (embed_loop enc 0 ?new m) (ids @ map uid (drop 0 ?new))"
    by (rule embed_loop_inv [OF enc inv dn disj])
  then have loop: "mgr_inv (save_index (embed_loop enc 0 ?new m)) (ids @ map uid ?new)"
    by (simp add: mgr_inv_save_index)
  show ?thesis
  proof (cases "?new = []")
    case True
    then have "embed_emails enc r m = m" by (simp add: embed_emails_def Let_def)
    with True inv show ?thesis by (simp add: ids)
  next
    case False
    then have "r \<noteq> []" by auto
    with False have "embed_emails enc r m = save_index (embed_loop enc 0 ?new m)"
      by (simp add: embed_emails_def Let_def)
    with loop show ?thesis by (simp add: ids)
  qed
qed

lemma embed_all_inv:
  "\<forall>ts. length (enc ts) = length ts \<Longrightarrow> mgr_inv m ids \<Longrightarrow>
   \<forall>r\<in>set rs. distinct (map uid r) \<Longrightarrow>
   mgr_inv (embed_all enc rs m) (insertion_order ids rs)"
proof (induction rs arbitrary: m ids)
  case Nil
  then show ?case by simp
next
  case (Cons r rs)
  have "mgr_inv (embed_emails enc r m) (ids @ filter (\<lambda>u. u \<notin> set ids) (map uid r))"
    using Cons.prems by (intro embed_emails_inv) simp_all
  then have "mgr_inv (embed_all enc rs (embed_emails enc r m))
               (insertion_order (ids @ filter (\<lambda>u. u \<notin> set ids) (map uid r)) rs)"
    using Cons.prems by (intro Cons.IH) simp_all
  then show ?case by simp
qed

lemma mgr_inv_fresh: "mgr_inv (EmbeddingManager None None calls) []"
  by (simp add: EmbeddingManager_def load_or_create_index_def mgr_inv_def maps_inv_def)

text \<open>
  Claim C1. Start from a fresh manager (no files) and run any sequence \<open>rs\<close> of
  \<open>embed_emails\<close> calls, the uids within each call distinct, with an encoder that
  returns one vector per text. Let \<open>ids\<close> be the uids in order of first appearance.
  Then the index holds \<open>length ids\<close> vectors, \<open>uid_to_faiss_id\<close> maps exactly the uid
  at place \<open>p\<close> of \<open>ids\<close> to \<open>p\<close> (so positions are \<open>0, 1, 2, \<dots>\<close> in input order,
  each the size of the index when the record was added, without gap or reuse), and
  \<open>faiss_id_to_uid\<close> is its inverse, keyed by \<open>str(p)\<close>.
\<close>

theorem identity_map_bijection:
  assumes "\<forall>ts. length (enc ts) = length ts"
    and "\<forall>r\<in>set rs. distinct (map uid r)"
  shows "let m = embed_all enc rs (EmbeddingManager None None []);
             ids = insertion_order [] rs
         in length (index m) = length ids \<and> distinct ids \<and>
            (\<forall>u p. uid_to_faiss_id m u = Some p \<longleftrightarrow> p < length ids \<and> ids ! p = u) \<and>
            (\<forall>k u. faiss_id_to_uid m k = Some u \<longleftrightarrow>
                     (\<exists>p<length ids. k = str_nat p \<and> ids ! p = u))"
proof -
  have "mgr_inv (embed_all enc rs (EmbeddingManager None None [])) (insertion_order [] rs)"
    by (rule embed_all_inv [OF assms(1) mgr_inv_fresh assms(2)])
  then show ?thesis
    unfolding mgr_inv_def maps_inv_def Let_def by blast
qed

theorem identity_map_bijection_witness:
  "(\<forall>ts. length (map length ts) = length ts) \<and>
   distinct (map uid rec3) \<and>
   length (index (embed_all (map length) [rec3] (EmbeddingManager None None []))) = 3 \<and>
   uid_to_faiss_id (embed_all (map length) [rec3] (EmbeddingManager None None [])) ''1'' = Some 0 \<and>
   uid_to_faiss_id (embed_all (map length) [rec3] (EmbeddingManager None None [])) ''2'' = Some 1 \<and>
   uid_to_faiss_id (embed_all (map length) [rec3] (EmbeddingManager None None [])) ''3'' = Some 2"
proof -
  have h1: "\<forall>ts. length (map length ts) = length ts" by simp
  have h2: "\<forall>r\<in>set [rec3]. distinct (map uid r)" by (simp add: rec3_def)
  have ids: "insertion_order [] [rec3] = [''1'', ''2'', ''3'']" by (simp add: rec3_def)
  show ?thesis
    using identity_map_bijection [OF h1 h2] h1 h2
    unfolding ids Let_def by (simp del: embed_all.simps)
qed






section \<open>Loading the persisted pair\<close>

text \<open>
  Claim C3, as the code has it. When the index file exists, the manager takes the index
  from it and the two maps from the mapping file (empty maps when that file or a key is
  missing), whatever their sizes: no comparison is made and no error is raised. What
  \<open>_save_index\<close> wrote is read back unchanged, so a pair saved together is loaded as
  the same pair.
\<close>

theorem load_unchecked:
  "index (EmbeddingManager (Some ix) mp calls) = ix \<and>
   uid_to_faiss_id (EmbeddingManager (Some ix) mp calls) =
     (case mp of None \<Rightarrow> Map.empty
      | Some data \<Rightarrow> (case json_uid_to_faiss_id data of Some d \<Rightarrow> d | None \<Rightarrow> Map.empty)) \<and>
   faiss_id_to_uid (EmbeddingManager (Some ix) mp calls) =
     (case mp of None \<Rightarrow> Map.empty
      | Some data \<Rightarrow> (case json_faiss_id_to_uid data of Some d \<Rightarrow> d | None \<Rightarrow> Map.empty)) \<and>
   index (EmbeddingManager (faiss_index_file (save_index m)) (faiss_mapping_file (save_index m)) calls)
     = index m \<and>
   uid_to_faiss_id (EmbeddingManager (faiss_index_file (save_index m)) (faiss_mapping_file (save_index m)) calls)
     = uid_to_faiss_id m \<and>
   faiss_id_to_uid (EmbeddingManager (faiss_index_file (save_index m)) (faiss_mapping_file (save_index m)) calls)
     = faiss_id_to_uid m"
  by (simp add: EmbeddingManager_def load_or_create_index_def load_mapping_def
      save_index_def save_mapping_def split: option.splits)

text \<open>
  An index file holding one vector and no mapping file: the manager is built with one
  vector in the index and no entry in either map.
\<close>

theorem load_unchecked_counterexample:
  "index (EmbeddingManager (Some [7::nat]) None []) = [7] \<and>
   uid_to_faiss_id (EmbeddingManager (Some [7::nat]) None []) = Map.empty \<and>
   faiss_id_to_uid (EmbeddingManager (Some [7::nat]) None []) = Map.empty \<and>
   card (dom (uid_to_faiss_id (EmbeddingManager (Some [7::nat]) None []))) \<noteq>
     length (index (EmbeddingManager (Some [7::nat]) None []))"
  by (simp add: EmbeddingManager_def load_or_create_index_def load_mapping_def)

section \<open>UIDVALIDITY changes\<close>

lemma clear_index_empty:
  "index (clear_index m) = [] \<and> uid_to_faiss_id (clear_index m) = Map.empty \<and>
   faiss_id_to_uid (clear_index m) = Map.empty \<and>
   faiss_index_file (clear_index m) = Some [] \<and>
   faiss_mapping_file (clear_index m) =
     Some \<lparr>json_uid_to_faiss_id = Some Map.empty, json_faiss_id_to_uid = Some Map.empty\<rparr>"
  by (simp add: clear_index_def load_or_create_index_def save_index_def save_mapping_def)

text \<open>
  Claim C8. When the server's UIDVALIDITY \<open>c\<close> differs from the persisted one, the
  check persists \<open>c\<close>, empties the emails table and replaces the index and mapping
  files by empty ones, so that a manager opened afterwards has an empty index and empty
  maps; the table at the end of the cycle holds the newly fetched records only. On the
  first observation (nothing persisted) only \<open>c\<close> is written: table, files and call
  log stay as they were.
\<close>

theorem uid_validity_reset:
  "(uidvalidity_file w = Some l \<and> c \<noteq> l \<longrightarrow>
      (let w' = check_and_clear (Some c) w
       in uidvalidity_file w' = Some c \<and> emails_table w' = [] \<and>
          index_file w' = Some [] \<and>
          mapping_file w' =
            Some \<lparr>json_uid_to_faiss_id = Some Map.empty, json_faiss_id_to_uid = Some Map.empty\<rparr> \<and>
          index (open_manager w') = [] \<and>
          uid_to_faiss_id (open_manager w') = Map.empty \<and>
          faiss_id_to_uid (open_manager w') = Map.empty \<and>
          emails_table (fetch_emails enc (Some c) fetched now w) = update_emails fetched [])) \<and>
   (uidvalidity_file w = None \<longrightarrow>
      check_and_clear (Some c) w = w\<lparr>uidvalidity_file := Some c\<rparr>)"
proof (intro conjI impI)
  assume a: "uidvalidity_file w = Some l \<and> c \<noteq> l"
  let ?w2 = "w\<lparr>uidvalidity_file := Some c, emails_table := []\<rparr>"
  have eq: "check_and_clear (Some c) w = close_manager (clear_index (open_manager ?w2)) ?w2"
    using a by (simp add: check_and_clear_def check_uid_validity_def Let_def)
  show "let w' = check_and_clear (Some c) w
       in uidvalidity_file w' = Some c \<and> emails_table w' = [] \<and>
          index_file w' = Some [] \<and>
          mapping_file w' =
            Some \<lparr>json_uid_to_faiss_id = Some Map.empty, json_faiss_id_to_uid = Some Map.empty\<rparr> \<and>
          index (open_manager w') = [] \<and>
          uid_to_faiss_id (open_manager w') = Map.empty \<and>
          faiss_id_to_uid (open_manager w') = Map.empty \<and>
          emails_table (fetch_emails enc (Some c) fetched now w) = update_emails fetched []"
    unfolding fetch_emails_def eq Let_def
    by (simp add: close_manager_def clear_index_empty open_manager_def [of "_\<lparr>index_file := _, mapping_file := _, model_calls := _\<rparr>"]
        EmbeddingManager_def load_or_create_index_def load_mapping_def update_emails_def)
next
  assume "uidvalidity_file w = None"
  then show "check_and_clear (Some c) w = w\<lparr>uidvalidity_file := Some c\<rparr>"
    by (simp add: check_and_clear_def check_uid_validity_def Let_def)
qed

theorem uid_validity_reset_witness:
  "uidvalidity_file world5 = Some 5 \<and> (6::int) \<noteq> 5 \<and>
   emails_table world5 \<noteq> [] \<and>
   uidvalidity_file (check_and_clear (Some 6) world5) = Some 6 \<and>
   emails_table (check_and_clear (Some 6) world5) = [] \<and>
   index_file (check_and_clear (Some 6) world5) = Some [] \<and>
   index (open_manager (check_and_clear (Some 6) world5)) = [] \<and>
   uid_to_faiss_id (open_manager (check_and_clear (Some 6) world5)) = Map.empty \<and>
   uidvalidity_file (world5\<lparr>uidvalidity_file := None\<rparr>) = None \<and>
   check_and_clear (Some 6) (world5\<lparr>uidvalidity_file := None\<rparr>) = world5\<lparr>uidvalidity_file := Some 6\<rparr>"
proof -
  have h: "uidvalidity_file world5 = Some 5 \<and> (6::int) \<noteq> 5" by (simp add: world5_def)
  have t: "emails_table world5 \<noteq> []" by (simp add: world5_def rec3_def)
  have n: "uidvalidity_file (world5\<lparr>uidvalidity_file := None\<rparr>) = None" by simp
  from uid_validity_reset [of world5 5 6 "map length" "[]" "[]"] h
  have 1: "let w' = check_and_clear (Some 6) world5
       in uidvalidity_file w' = Some 6 \<and> emails_table w' = [] \<and>
          index_file w' = Some [] \<and>
          mapping_file w' =
            Some \<lparr>json_uid_to_faiss_id = Some Map.empty, json_faiss_id_to_uid = Some Map.empty\<rparr> \<and>
          index (open_manager w') = [] \<and>
          uid_to_faiss_id (open_manager w') = Map.empty \<and>
          faiss_id_to_uid (open_manager w') = Map.empty \<and>
          emails_table (fetch_emails (map length) (Some 6) [] [] world5) = update_emails [] []"
    by blast
  from uid_validity_reset [of "world5\<lparr>uidvalidity_file := None\<rparr>" 0 6] n
  have 2: "check_and_clear (Some 6) (world5\<lparr>uidvalidity_file := None\<rparr>) = world5\<lparr>uidvalidity_file := Some 6\<rparr>"
    by simp
  from 1 2 h t n show ?thesis unfolding Let_def by simp
qed

section \<open>Semantic search\<close>

lemma str_int_small [simp]:
  "str_int 0 = ''0''" "str_int 1 = ''1''" "str_int 2 = ''2''" "str_int 7 = ''7''"
  by (simp_all add: str_int_def str_nat.simps digit_char_def) code_simp+

lemma sort_desc_2: "sort_desc f [a, b] = (if f a < f b then [b, a] else [a, b])"
  by (auto simp: sort_desc_def)

lemma set_sort_desc [simp]: "set (sort_desc f xs) = set xs"
  by (simp add: sort_desc_def)

lemma collect_uids_all_missing:
  "\<forall>i\<in>set idxs. i = - 1 \<or> faiss_id_to_uid m (str_int i) = None \<Longrightarrow> collect_uids m idxs = []"
  by (induction idxs) auto

lemma search_no_uids:
  assumes "collect_uids (embedding_manager s)
             (snd (index_search L (index (embedding_manager s)) (encode L [query]) limit)) = []"
  shows "search_emails_enhanced L query date_after date_before sender_arg regex limit s =
         Inr ([], s\<lparr>embedding_manager :=
                      (embedding_manager s)\<lparr>encode_calls := encode_calls (embedding_manager s) @ [[query]]\<rparr>\<rparr>)"
proof (cases "index_search L (index (embedding_manager s)) (encode L [query]) limit")
  case (Pair distances indices)
  with assms show ?thesis
    by (simp add: search_emails_enhanced_def Let_def)
qed

text \<open>
  Claim C9. With an empty vector index, for which the index search returns only the
  label \<open>-1\<close>, the search returns the empty list whatever the query, the filters and
  the limit; it runs no query on the emails table and leaves the table as it is.
\<close>

theorem search_empty_index:
  assumes "index (embedding_manager s) = []"
    and "\<forall>i\<in>set (snd (index_search L [] (encode L [query]) limit)). i = - 1"
  shows "\<exists>s'. search_emails_enhanced L query date_after date_before sender_arg regex limit s = Inr ([], s')
              \<and> db_queries s' = db_queries s \<and> table s' = table s"
proof -
  have "collect_uids (embedding_manager s)
          (snd (index_search L (index (embedding_manager s)) (encode L [query]) limit)) = []"
    using assms by (intro collect_uids_all_missing) simp
  from search_no_uids [OF this] show ?thesis by simp
qed

lemma lib0_search_empty: "snd (index_search lib0 [] q 5) = [- 1, - 1, - 1, - 1, - 1]"
  by (simp add: lib0_def numeral_eq_Suc)

theorem search_empty_index_witness:
  "index (embedding_manager store0) = [] \<and>
   snd (index_search lib0 [] (encode lib0 [''invoice'']) 5) = [- 1, - 1, - 1, - 1, - 1] \<and>
   table store0 \<noteq> [] \<and>
   (\<exists>s'. search_emails_enhanced lib0 ''invoice'' None None None None 5 store0 = Inr ([], s')
         \<and> db_queries s' = db_queries store0 \<and> table s' = table store0)"
proof -
  have 1: "index (embedding_manager store0) = []"
    by (simp add: store0_def EmbeddingManager_def load_or_create_index_def)
  have 2: "snd (index_search lib0 [] (encode lib0 [''invoice'']) 5) = [- 1, - 1, - 1, - 1, - 1]"
    by (rule lib0_search_empty)
  have 3: "\<forall>i\<in>set (snd (index_search lib0 [] (encode lib0 [''invoice'']) 5)). i = - 1"
    unfolding 2 by simp
  have 4: "table store0 \<noteq> []" by (simp add: store0_def store1_def)
  from search_empty_index [OF 1 3, of None None None None] 1 2 4 show ?thesis by blast
qed



lemma lib0_search2: "index_search lib0 [206, 5] q 2 = ([0, 1/10], [0, 1])"
  by (simp add: lib0_def upt_rec numeral_2_eq_2)

lemma store1_uids: "collect_uids (embedding_manager store1) [0, 1] = [''1'', ''2'']"
  by (simp add: store1_def)

lemma store1_hits:
  "fetch_metadata_for_uids (table store1) [''1'', ''2''] [0, 1/10] =
   [\<lparr>res_uid = ''1'', res_subject = ''Report'', res_sender = ''Ann <ann@example.com>'',
     res_date = ''Mon, 14 Jul 2025 10:00:00 +0000'', body_preview = preview long_body,
     full_body = long_body, similarity_score = 1\<rparr>,
    \<lparr>res_uid = ''2'', res_subject = ''Hello'', res_sender = ''Bob <bob@example.com>'',
     res_date = ''invalid-date'', body_preview = ''hello'',
     full_body = ''hello'', similarity_score = 9/10\<rparr>]"
  by (simp add: store1_def fetch_metadata_for_uids_def enumerate_eq_zip upt_rec preview_def)

lemma preview_long_body: "preview long_body = replicate 200 (CHR ''x'') @ ''...''"
  by (simp add: preview_def long_body_def)

lemma needle_not_in_preview: "\<not> sublist ''needle'' (preview long_body)"
proof
  assume "sublist ''needle'' (preview long_body)"
  then have "set ''needle'' \<subseteq> set (preview long_body)"
    by (rule set_mono_sublist)
  then show False by (simp add: preview_long_body)
qed

lemma needle_in_body: "sublist ''needle'' long_body"
  by (simp add: long_body_def)

text \<open>
  Claim C6 on the store above. The body of record 1 is 200 times \<open>x\<close> followed by
  \<open>needle\<close>, so the pattern \<open>needle\<close> matches the body. The search applies the pattern to
  \<open>body_preview\<close> (the first 200 characters and three dots) and drops the record; without
  the pattern both records are returned.
\<close>

theorem search_regex_on_preview:
  "uids_of (search_emails_enhanced lib0 ''report'' None None None (Some ''needle'') 2 store1) = Inr []
   \<and> the (re_compile lib0 ''needle'') long_body
   \<and> uids_of (search_emails_enhanced lib0 ''report'' None None None None 2 store1) = Inr [''1'', ''2'']"
proof -
  have a: "index (embedding_manager store1) = [206, 5]" by (simp add: store1_def)
  have n: "\<not> sublist ''needle'' ''hello''"
    using set_mono_sublist [of "''needle''" "''hello''"] by auto
  have 1: "uids_of (search_emails_enhanced lib0 ''report'' None None None (Some ''needle'') 2 store1) = Inr []"
    unfolding search_emails_enhanced_def Let_def a lib0_search2
    by (simp del: collect_uids.simps add: store1_uids store1_hits filter_date_after_def filter_date_before_def filter_sender_def
        filter_regex_def given_def uids_of_def lib0_def needle_not_in_preview n sort_desc_def)
  have 2: "the (re_compile lib0 ''needle'') long_body"
    by (simp add: lib0_def needle_in_body)
  have 3: "uids_of (search_emails_enhanced lib0 ''report'' None None None None 2 store1) = Inr [''1'', ''2'']"
    unfolding search_emails_enhanced_def Let_def a lib0_search2
    by (simp del: collect_uids.simps add: store1_uids store1_hits filter_date_after_def filter_date_before_def filter_sender_def
        filter_regex_def given_def uids_of_def sort_desc_def)
  from 1 2 3 show ?thesis by blast
qed













section \<open>Stale neighbours\<close>


















section \<open>Keyword fallback\<close>














lemma length_sort_desc [simp]: "length (sort_desc f xs) = length xs"
  by (simp add: sort_desc_def)










end
